theory Spec2Isabelle
  imports Main "HOL-Library.Char_ord" "HOL-Library.List_Lexorder"
begin

section \<open>Python values, exceptions and the manager object\<close>

text \<open>
  The objects that \<open>manager.py\<close> handles are what \<open>json.loads\<close> and the
  Elasticsearch client return: \<open>None\<close>, booleans, integers, unicode strings, lists and
  dicts with string keys. A dict is an association list with pairwise different keys; the
  order of the list stands for the order in which the interpreter iterates over the dict.
  Strings are lists of 8-bit characters, the code points up to 255. Floating point
  numbers are not part of the model.
\<close>

datatype json =
    JNull
  | JBool bool
  | JInt int
  | JStr string
  | JArr "json list"
  | JObj "(string \<times> json) list"

type_synonym dict = "(string \<times> json) list"

text \<open>
  The exceptions of the program. \<open>PyException msg\<close> is \<open>raise Exception(msg)\<close>;
  \<open>BackendError\<close> is whatever the Elasticsearch client raises; \<open>Unmodelled\<close> marks the
  places where Python goes on with a value this model has no representation for: a dict
  key that is not a string, \<open>%s\<close> applied to a list or dict, a float or a character
  above 255 read by \<open>json.loads\<close>.
\<close>

datatype error =
    KeyError string
  | TypeError
  | ValueError
  | PyException string
  | BackendError string
  | IOError
  | Unmodelled

datatype es_client = Elasticsearch "(string \<times> nat) list"

record manager =
  host_ip :: string
  host_port :: nat
  index :: string
  es :: "es_client option"
  max_hits :: int

definition init :: "string \<Rightarrow> string \<times> nat \<Rightarrow> manager" where
  "init idx host =
     \<lparr>host_ip = fst host, host_port = snd host, index = idx, es = None, max_hits = 9999\<rparr>"

definition connect_es :: "manager \<Rightarrow> manager" where
  "connect_es self =
     (if es self \<noteq> None then self
      else self\<lparr>es := Some (Elasticsearch [(host_ip self, host_port self)])\<rparr>)"

section \<open>The backend\<close>

text \<open>
  The Elasticsearch service is outside the program. It is a parameter of the model: a
  function that answers one request in a backend state of any type, with the client's
  return value or the exception the client raises, and the next backend state. The world
  keeps the backend state and the list of requests sent so far, so that "no backend
  call" is "the list did not grow".
\<close>

datatype call =
    IndicesCreate json
  | IndexDoc json json json json
  | DeleteDoc json json json
  | Search string string

type_synonym 'b backend = "call \<Rightarrow> 'b \<Rightarrow> (error + json) \<times> 'b"

record 'b world =
  bstate :: 'b
  calls :: "call list"

type_synonym 'b state = "manager \<times> 'b world"

definition es_call :: "'b backend \<Rightarrow> call \<Rightarrow> 'b world \<Rightarrow> (error + json) \<times> 'b world" where
  "es_call be c w =
     (case be c (bstate w) of (r, b') \<Rightarrow> (r, \<lparr>bstate = b', calls = calls w @ [c]\<rparr>))"

text \<open>\<open>obj[k]\<close> for a string \<open>k\<close>: only a dict has string subscripts.\<close>

fun getitem :: "json \<Rightarrow> string \<Rightarrow> error + json" where
  "getitem (JObj kvs) k = (case map_of kvs k of None \<Rightarrow> Inl (KeyError k) | Some v \<Rightarrow> Inr v)"
| "getitem _ k = Inl TypeError"

text \<open>\<open>x is None or x == ""\<close>, the test of \<open>put_object\<close> and \<open>del_object\<close>.\<close>

definition none_or_empty :: "json \<Rightarrow> bool" where
  "none_or_empty x \<longleftrightarrow> x = JNull \<or> x = JStr []"

section \<open>Writing to and deleting from the backend\<close>

definition put_object :: "'b backend \<Rightarrow> json \<Rightarrow> 'b state \<Rightarrow> (error + json) \<times> 'b state" where
  "put_object be obj s =
     (case getitem obj ''_index'' of Inl e \<Rightarrow> (Inl e, s) | Inr i \<Rightarrow>
      if none_or_empty i then (Inl (PyException ''Invalid Object, no index''), s) else
      case getitem obj ''_id'' of Inl e \<Rightarrow> (Inl e, s) | Inr d \<Rightarrow>
      if none_or_empty d then (Inl (PyException ''Invalid Object, no _id''), s) else
      case getitem obj ''_type'' of Inl e \<Rightarrow> (Inl e, s) | Inr t \<Rightarrow>
      if none_or_empty t then (Inl (PyException ''Invalid Object, no _type''), s) else
      case getitem obj ''_source'' of Inl e \<Rightarrow> (Inl e, s) | Inr src \<Rightarrow>
      if none_or_empty src then (Inl (PyException ''Invalid Object, no _source''), s) else
      let self = connect_es (fst s) in
      case es_call be (IndicesCreate i) (snd s) of
        (Inl e, w1) \<Rightarrow> (Inl e, (self, w1))
      | (Inr _, w1) \<Rightarrow>
          (case es_call be (IndexDoc i d t src) w1 of (resp, w2) \<Rightarrow> (resp, (self, w2))))"

text \<open>\<open>for obj in objs: self.put_object(obj)\<close>; the first exception ends the loop.\<close>

fun put_pkg :: "'b backend \<Rightarrow> json list \<Rightarrow> 'b state \<Rightarrow> (error + unit) \<times> 'b state" where
  "put_pkg be [] s = (Inr (), s)"
| "put_pkg be (obj # objs) s =
     (case put_object be obj s of
        (Inl e, s1) \<Rightarrow> (Inl e, s1)
      | (Inr _, s1) \<Rightarrow> put_pkg be objs s1)"

definition put_objects :: "'b backend \<Rightarrow> dict \<Rightarrow> 'b state \<Rightarrow> (error + unit) \<times> 'b state" where
  "put_objects be objects s = put_pkg be (map snd objects) s"

definition del_object :: "'b backend \<Rightarrow> json \<Rightarrow> 'b state \<Rightarrow> (error + unit) \<times> 'b state" where
  "del_object be obj s =
     (case getitem obj ''_index'' of Inl e \<Rightarrow> (Inl e, s) | Inr i \<Rightarrow>
      if none_or_empty i then (Inl (PyException ''Invalid Object''), s) else
      case getitem obj ''_id'' of Inl e \<Rightarrow> (Inl e, s) | Inr d \<Rightarrow>
      if none_or_empty d then (Inl (PyException ''Invalid Object''), s) else
      case getitem obj ''_type'' of Inl e \<Rightarrow> (Inl e, s) | Inr t \<Rightarrow>
      if none_or_empty t then (Inl (PyException ''Invalid Object''), s) else
      let self = connect_es (fst s) in
      case es_call be (DeleteDoc i d t) (snd s) of
        (Inl e, w1) \<Rightarrow> (Inl e, (self, w1))
      | (Inr _, w1) \<Rightarrow> (Inr (), (self, w1)))"

fun del_objects :: "'b backend \<Rightarrow> dict \<Rightarrow> 'b state \<Rightarrow> (error + unit) \<times> 'b state" where
  "del_objects be [] s = (Inr (), s)"
| "del_objects be ((name, obj) # objects) s =
     (case del_object be obj s of
        (Inl e, s1) \<Rightarrow> (Inl e, s1)
      | (Inr _, s1) \<Rightarrow> del_objects be objects s1)"

section \<open>Searching the backend\<close>

text \<open>\<open>str(n)\<close> for an integer: its decimal digits, with a minus sign when negative.\<close>

definition digit_char :: "nat \<Rightarrow> char" where
  "digit_char d = ''0123456789'' ! d"

function str_nat :: "nat \<Rightarrow> string" where
  "str_nat n = (if n < 10 then [digit_char n] else str_nat (n div 10) @ [digit_char (n mod 10)])"
  by pat_completeness auto
termination
  by (relation "measure id") auto

declare str_nat.simps [simp del]

definition str_int :: "int \<Rightarrow> string" where
  "str_int i = (if i < 0 then CHR ''-'' # str_nat (nat (- i)) else str_nat (nat i))"

text \<open>
  \<open>for x in v\<close>: a list gives its elements, a dict its keys, a string its characters;
  anything else is not iterable.
\<close>

fun py_iter :: "json \<Rightarrow> error + json list" where
  "py_iter (JArr xs) = Inr xs"
| "py_iter (JObj kvs) = Inr (map (\<lambda>kv. JStr (fst kv)) kvs)"
| "py_iter (JStr s) = Inr (map (\<lambda>c. JStr [c]) s)"
| "py_iter _ = Inl TypeError"

text \<open>
  \<open>d[k] = v\<close> on a dict: an existing key keeps its place and gets the new value, a new
  key is added.
\<close>

fun setitem :: "dict \<Rightarrow> string \<Rightarrow> json \<Rightarrow> dict" where
  "setitem [] k v = [(k, v)]"
| "setitem ((k', v') # kvs) k v =
     (if k' = k then (k, v) # kvs else (k', v') # setitem kvs k v)"

text \<open>
  A value used as a dict key. Lists and dicts are unhashable; a key that is \<open>None\<close>, a
  boolean or an integer is legal Python that the string-keyed dicts here do not hold.
\<close>

fun dict_key :: "json \<Rightarrow> error + string" where
  "dict_key (JStr s) = Inr s"
| "dict_key (JArr _) = Inl TypeError"
| "dict_key (JObj _) = Inl TypeError"
| "dict_key _ = Inl Unmodelled"

definition query_body :: "int \<Rightarrow> string \<Rightarrow> string \<Rightarrow> string" where
  "query_body n search_field search_val =
     ''{ size: '' @ str_int n @ '', '' @
     ''query: { filtered: { filter: { '' @
     search_field @ '': { value: \"'' @ search_val @ ''\"'' @
     '' } } } } } }''"

text \<open>
  The body of the loop over the hits: the entry for \<open>doc['_id']\<close> is replaced by an
  empty dict, which then gets the four fields one by one.
\<close>

definition hit_entry :: "string \<Rightarrow> json \<Rightarrow> json \<Rightarrow> json \<Rightarrow> json" where
  "hit_entry idx t d src =
     JObj (setitem (setitem (setitem (setitem [] ''_index'' (JStr idx)) ''_type'' t)
             ''_id'' d) ''_source'' src)"

fun hits_loop :: "string \<Rightarrow> json list \<Rightarrow> dict \<Rightarrow> error + dict" where
  "hits_loop idx [] objects = Inr objects"
| "hits_loop idx (doc # docs) objects =
     (case getitem doc ''_id'' of Inl e \<Rightarrow> Inl e | Inr d \<Rightarrow>
      case dict_key d of Inl e \<Rightarrow> Inl e | Inr k \<Rightarrow>
      case getitem doc ''_type'' of Inl e \<Rightarrow> Inl e | Inr t \<Rightarrow>
      case getitem doc ''_source'' of Inl e \<Rightarrow> Inl e | Inr src \<Rightarrow>
      hits_loop idx docs (setitem objects k (hit_entry idx t d src)))"

definition get_objects ::
  "'b backend \<Rightarrow> string \<Rightarrow> string \<Rightarrow> 'b state \<Rightarrow> (error + dict) \<times> 'b state" where
  "get_objects be search_field search_val s =
     (let query = query_body (max_hits (fst s)) search_field search_val;
          self = connect_es (fst s)
      in case es_call be (Search (index self) query) (snd s) of
           (Inl e, w1) \<Rightarrow> (Inl e, (self, w1))
         | (Inr res, w1) \<Rightarrow>
             (case getitem res ''hits'' of Inl e \<Rightarrow> (Inl e, (self, w1)) | Inr h \<Rightarrow>
              case getitem h ''hits'' of Inl e \<Rightarrow> (Inl e, (self, w1)) | Inr hs \<Rightarrow>
              case py_iter hs of Inl e \<Rightarrow> (Inl e, (self, w1)) | Inr docs \<Rightarrow>
              (hits_loop (index self) docs [], (self, w1))))"

definition get_config :: "'b backend \<Rightarrow> 'b state \<Rightarrow> (error + dict) \<times> 'b state" where
  "get_config be s = get_objects be ''type'' ''config'' s"

definition get_visualizations :: "'b backend \<Rightarrow> 'b state \<Rightarrow> (error + dict) \<times> 'b state" where
  "get_visualizations be s = get_objects be ''type'' ''visualization'' s"

definition get_dashboards :: "'b backend \<Rightarrow> 'b state \<Rightarrow> (error + dict) \<times> 'b state" where
  "get_dashboards be s = get_objects be ''type'' ''dashboard'' s"

definition get_searches :: "'b backend \<Rightarrow> 'b state \<Rightarrow> (error + dict) \<times> 'b state" where
  "get_searches be s = get_objects be ''type'' ''search'' s"

section \<open>The \<open>json\<close> module\<close>

text \<open>
  \<open>json.dumps(obj, sort_keys=True, indent=4, separators=(',', ': '))\<close> and
  \<open>json.loads\<close>, as far as the values of the model go. The module is part of
  Python's library, not of the repository; the definitions follow the library's encoder
  and decoder. Strings are escaped as the
  encoder does with \<open>ensure_ascii\<close>: the quote, the backslash and the control
  characters that have a short form get it, every other character outside the printable
  ASCII range becomes \<open>\u00XX\<close>.
\<close>

definition hex_char :: "nat \<Rightarrow> char" where
  "hex_char d = ''0123456789abcdef'' ! d"

definition printable :: "char \<Rightarrow> bool" where
  "printable c \<longleftrightarrow> (32::nat) \<le> of_char c \<and> of_char c \<le> (126::nat)"

definition escape_char :: "char \<Rightarrow> string" where
  "escape_char c =
     (if c = CHR 0x22 then [CHR 0x5C, CHR 0x22]
      else if c = CHR 0x5C then [CHR 0x5C, CHR 0x5C]
      else if c = CHR 0x0A then [CHR 0x5C, CHR ''n'']
      else if c = CHR 0x0D then [CHR 0x5C, CHR ''r'']
      else if c = CHR 0x09 then [CHR 0x5C, CHR ''t'']
      else if c = CHR 0x08 then [CHR 0x5C, CHR ''b'']
      else if c = CHR 0x0C then [CHR 0x5C, CHR ''f'']
      else if printable c then [c]
      else [CHR 0x5C, CHR ''u'', CHR ''0'', CHR ''0'',
            hex_char (of_char c div 16), hex_char (of_char c mod 16)])"

definition encode_string :: "string \<Rightarrow> string" where
  "encode_string s = CHR 0x22 # concat (map escape_char s) @ [CHR 0x22]"

text \<open>\<open>sep.join(strs)\<close>\<close>

fun join :: "string \<Rightarrow> string list \<Rightarrow> string" where
  "join sep [] = []"
| "join sep [x] = x"
| "join sep (x # y # ys) = x @ sep @ join sep (y # ys)"

definition newline_indent :: "nat \<Rightarrow> string" where
  "newline_indent level = CHR 0x0A # replicate (4 * level) CHR '' ''"

text \<open>
  The encoder at nesting depth \<open>level\<close>. The items of a dict are written in the order
  of their keys; the values are rendered first and the rendered items sorted, which is
  the same text.
\<close>

fun dumps_at :: "nat \<Rightarrow> json \<Rightarrow> string" where
  "dumps_at level JNull = ''null''"
| "dumps_at level (JBool b) = (if b then ''true'' else ''false'')"
| "dumps_at level (JInt i) = str_int i"
| "dumps_at level (JStr s) = encode_string s"
| "dumps_at level (JArr xs) =
     (if xs = [] then ''[]''
      else ''['' @ newline_indent (Suc level)
           @ join ('','' @ newline_indent (Suc level)) (map (dumps_at (Suc level)) xs)
           @ newline_indent level @ '']'')"
| "dumps_at level (JObj kvs) =
     (if kvs = [] then ''{}''
      else ''{'' @ newline_indent (Suc level)
           @ join ('','' @ newline_indent (Suc level))
               (map (\<lambda>kv. encode_string (fst kv) @ '': '' @ snd kv)
                  (sort_key fst (map (\<lambda>kv. (fst kv, dumps_at (Suc level) (snd kv))) kvs)))
           @ newline_indent level @ ''}'')"

definition json_dumps :: "json \<Rightarrow> string" where
  "json_dumps obj = dumps_at 0 obj"

text \<open>The decoder: white space, string literals, numbers.\<close>

definition is_ws :: "char \<Rightarrow> bool" where
  "is_ws c \<longleftrightarrow> c = CHR '' '' \<or> c = CHR 0x09 \<or> c = CHR 0x0A \<or> c = CHR 0x0D"

definition skip_ws :: "string \<Rightarrow> string" where
  "skip_ws s = dropWhile is_ws s"

definition is_digit :: "char \<Rightarrow> bool" where
  "is_digit c \<longleftrightarrow> c \<in> set ''0123456789''"

definition digit_val :: "char \<Rightarrow> nat" where
  "digit_val c = of_char c - 48"

definition hex_val :: "char \<Rightarrow> nat option" where
  "hex_val c =
     (if is_digit c then Some (of_char c - 48)
      else if c \<in> set ''abcdef'' then Some (of_char c - 87)
      else if c \<in> set ''ABCDEF'' then Some (of_char c - 55)
      else None)"

definition unescape :: "char \<Rightarrow> char option" where
  "unescape e =
     (if e = CHR 0x22 then Some (CHR 0x22)
      else if e = CHR 0x5C then Some (CHR 0x5C)
      else if e = CHR ''/'' then Some (CHR ''/'')
      else if e = CHR ''b'' then Some (CHR 0x08)
      else if e = CHR ''f'' then Some (CHR 0x0C)
      else if e = CHR ''n'' then Some (CHR 0x0A)
      else if e = CHR ''r'' then Some (CHR 0x0D)
      else if e = CHR ''t'' then Some (CHR 0x09)
      else None)"

text \<open>
  \<open>\uXXXX\<close>: four hexadecimal digits. A code point above 255 is a character that a
  \<open>string\<close> of this model cannot hold.
\<close>

definition unicode_escape :: "string \<Rightarrow> error + char" where
  "unicode_escape ds =
     (case map hex_val ds of
        [Some a, Some b, Some c, Some d] \<Rightarrow>
          (if a = 0 \<and> b = 0 then Inr (char_of (16 * c + d)) else Inl Unmodelled)
      | _ \<Rightarrow> Inl ValueError)"

text \<open>The text after an opening quote, up to the closing one.\<close>

fun scan_string :: "string \<Rightarrow> error + string \<times> string" where
  "scan_string [] = Inl ValueError"
| "scan_string (c # cs) =
     (if c = CHR 0x22 then Inr ([], cs)
      else if c = CHR 0x5C then
        (case cs of
           [] \<Rightarrow> Inl ValueError
         | e # cs' \<Rightarrow>
             if e = CHR ''u'' then
               (if length cs' < 4 then Inl ValueError
                else case unicode_escape (take 4 cs') of
                       Inl err \<Rightarrow> Inl err
                     | Inr ch \<Rightarrow>
                         (case scan_string (drop 4 cs') of
                            Inl err \<Rightarrow> Inl err
                          | Inr (str, rest) \<Rightarrow> Inr (ch # str, rest)))
             else
               (case unescape e of
                  None \<Rightarrow> Inl ValueError
                | Some ch \<Rightarrow>
                    (case scan_string cs' of
                       Inl err \<Rightarrow> Inl err
                     | Inr (str, rest) \<Rightarrow> Inr (ch # str, rest))))
      else if (of_char c :: nat) < 32 then Inl ValueError
      else (case scan_string cs of
              Inl err \<Rightarrow> Inl err
            | Inr (str, rest) \<Rightarrow> Inr (c # str, rest)))"

text \<open>
  A number: an optional minus sign and an integer part without leading zeros. When a
  fraction or an exponent follows, Python reads a float.
\<close>

definition float_follows :: "string \<Rightarrow> bool" where
  "float_follows rest =
     (case rest of
        c # d # others \<Rightarrow>
          (c = CHR ''.'' \<and> is_digit d)
          \<or> ((c = CHR ''e'' \<or> c = CHR ''E'')
              \<and> (is_digit d
                 \<or> ((d = CHR ''+'' \<or> d = CHR ''-'')
                    \<and> (case others of [] \<Rightarrow> False | x # _ \<Rightarrow> is_digit x))))
      | _ \<Rightarrow> False)"

definition digits_val :: "string \<Rightarrow> nat" where
  "digits_val ds = foldl (\<lambda>a c. 10 * a + digit_val c) 0 ds"

definition parse_number :: "string \<Rightarrow> error + json \<times> string" where
  "parse_number s =
     (let neg = (s \<noteq> [] \<and> hd s = CHR ''-'');
          s1 = (if neg then tl s else s);
          digits = takeWhile is_digit s1
      in if digits = [] then Inl ValueError
         else
           let intpart = (if hd digits = CHR ''0'' then ''0'' else digits);
               rest = drop (length intpart) s1
           in if float_follows rest then Inl Unmodelled
              else Inr (JInt (if neg then - int (digits_val intpart) else int (digits_val intpart)),
                        rest))"

definition starts_with :: "string \<Rightarrow> string \<Rightarrow> bool" where
  "starts_with p s \<longleftrightarrow> take (length p) s = p"

text \<open>
  A value, the items of a list after its opening bracket, the items of a dict after its
  opening brace. The text is consumed from the left and the rest is returned with the
  value. The two tests \<open>length rest < length s\<close> hold whenever they are reached
  (lemma \<open>parse_value_shorter\<close>); they let the recursion be seen to end.
\<close>

function parse_value :: "string \<Rightarrow> error + json \<times> string"
  and parse_elems :: "string \<Rightarrow> json list \<Rightarrow> error + json \<times> string"
  and parse_members :: "string \<Rightarrow> dict \<Rightarrow> error + json \<times> string"
where
  "parse_value s =
     (case s of
        [] \<Rightarrow> Inl ValueError
      | c # cs \<Rightarrow>
          if c = CHR 0x22 then
            (case scan_string cs of
               Inl err \<Rightarrow> Inl err
             | Inr (str, rest) \<Rightarrow> Inr (JStr str, rest))
          else if c = CHR ''{'' then
            (case skip_ws cs of
               [] \<Rightarrow> Inl ValueError
             | c1 # cs1 \<Rightarrow>
                 if c1 = CHR ''}'' then Inr (JObj [], cs1)
                 else parse_members (c1 # cs1) [])
          else if c = CHR ''['' then
            (case skip_ws cs of
               [] \<Rightarrow> Inl ValueError
             | c1 # cs1 \<Rightarrow>
                 if c1 = CHR '']'' then Inr (JArr [], cs1)
                 else parse_elems (c1 # cs1) [])
          else if starts_with ''null'' s then Inr (JNull, drop 4 s)
          else if starts_with ''true'' s then Inr (JBool True, drop 4 s)
          else if starts_with ''false'' s then Inr (JBool False, drop 5 s)
          else if starts_with ''NaN'' s \<or> starts_with ''Infinity'' s
                  \<or> starts_with ''-Infinity'' s then Inl Unmodelled
          else parse_number s)"
| "parse_elems s acc =
     (case parse_value s of
        Inl err \<Rightarrow> Inl err
      | Inr (v, rest) \<Rightarrow>
          if length rest < length s then
            (case skip_ws rest of
               [] \<Rightarrow> Inl ValueError
             | c # cs \<Rightarrow>
                 if c = CHR '']'' then Inr (JArr (acc @ [v]), cs)
                 else if c = CHR '','' then parse_elems (skip_ws cs) (acc @ [v])
                 else Inl ValueError)
          else Inl ValueError)"
| "parse_members s acc =
     (case s of
        [] \<Rightarrow> Inl ValueError
      | c # cs \<Rightarrow>
          if c \<noteq> CHR 0x22 then Inl ValueError
          else
            (case scan_string cs of
               Inl err \<Rightarrow> Inl err
             | Inr (key, rest) \<Rightarrow>
                 (case skip_ws rest of
                    [] \<Rightarrow> Inl ValueError
                  | c1 # cs1 \<Rightarrow>
                      if c1 \<noteq> CHR '':'' then Inl ValueError
                      else
                        (case parse_value (skip_ws cs1) of
                           Inl err \<Rightarrow> Inl err
                         | Inr (v, rest2) \<Rightarrow>
                             if length rest2 < length (skip_ws cs1) then
                               (case skip_ws rest2 of
                                  [] \<Rightarrow> Inl ValueError
                                | c2 # cs2 \<Rightarrow>
                                    if c2 = CHR ''}'' then Inr (JObj (setitem acc key v), cs2)
                                    else if c2 = CHR '','' then
                                      parse_members (skip_ws cs2) (setitem acc key v)
                                    else Inl ValueError)
                             else Inl ValueError))))"
  by pat_completeness auto
termination
proof (relation "measure (\<lambda>x. case x of
          Inl s \<Rightarrow> 2 * length s
        | Inr (Inl (s, acc)) \<Rightarrow> 2 * length s + 1
        | Inr (Inr (s, acc)) \<Rightarrow> 2 * length s + 1)", goal_cases)
  case 1
  show ?case by simp
next
  case (2 s c cs c1 cs1)
  have "length (skip_ws cs) \<le> length cs"
    by (simp add: skip_ws_def length_dropWhile_le)
  with 2 show ?case by simp
next
  case (3 s c cs c1 cs1)
  have "length (skip_ws cs) \<le> length cs"
    by (simp add: skip_ws_def length_dropWhile_le)
  with 3 show ?case by simp
next
  case (4 s acc)
  show ?case by simp
next
  case (5 s acc x v rest c cs)
  have "length (skip_ws cs) \<le> length cs" and "length (skip_ws rest) \<le> length rest"
    by (simp_all add: skip_ws_def length_dropWhile_le)
  with 5 show ?case by simp
next
  case (6 s acc c cs x key rest c1 cs1)
  have shorter: "length r < Suc (length t)" if "scan_string t = Inr (k, r)" for t k r
    using that
  proof (induction t arbitrary: k r rule: scan_string.induct)
    case 1
    then show ?case by simp
  next
    case (2 c cs)
    then show ?case
      by (fastforce split: if_splits list.splits sum.splits option.splits)
  qed
  have "length (skip_ws cs1) \<le> length cs1" and "length (skip_ws rest) \<le> length rest"
    by (simp_all add: skip_ws_def length_dropWhile_le)
  moreover from 6 have "length rest < Suc (length cs)"
    by (intro shorter) auto
  ultimately show ?case using 6 by simp
next
  case (7 s acc c cs x key rest c1 cs1 y v rest2 c2 cs2)
  have shorter: "length r < Suc (length t)" if "scan_string t = Inr (k, r)" for t k r
    using that
  proof (induction t arbitrary: k r rule: scan_string.induct)
    case 1
    then show ?case by simp
  next
    case (2 c cs)
    then show ?case
      by (fastforce split: if_splits list.splits sum.splits option.splits)
  qed
  have "length (skip_ws cs1) \<le> length cs1" and "length (skip_ws rest) \<le> length rest"
    and "length (skip_ws cs2) \<le> length cs2" and "length (skip_ws rest2) \<le> length rest2"
    by (simp_all add: skip_ws_def length_dropWhile_le)
  moreover from 7 have "length rest < Suc (length cs)"
    by (intro shorter) auto
  ultimately show ?case using 7 by simp
qed

text \<open>
  \<open>json.loads(s)\<close>: white space may surround the value, nothing else may follow it. An
  argument that is not a string is a \<open>TypeError\<close>.
\<close>

definition json_loads :: "string \<Rightarrow> error + json" where
  "json_loads s =
     (case parse_value (skip_ws s) of
        Inl err \<Rightarrow> Inl err
      | Inr (v, rest) \<Rightarrow> if skip_ws rest = [] then Inr v else Inl ValueError)"

fun loads :: "json \<Rightarrow> error + json" where
  "loads (JStr s) = json_loads s"
| "loads _ = Inl TypeError"

declare parse_value.simps [simp del] parse_elems.simps [simp del] parse_members.simps [simp del]

section \<open>A dashboard with the objects it shows\<close>

text \<open>
  \<open>for name, val in objs.iteritems(): if name == panel['id']: objects[name] = val\<close>,
  the loop that \<open>get_dashboard_full\<close> runs over the visualizations and then over the
  searches. \<open>panel['id']\<close> is evaluated once for each item of \<open>objs\<close>, so not at all
  when \<open>objs\<close> is empty.
\<close>

fun add_matching :: "dict \<Rightarrow> json \<Rightarrow> dict \<Rightarrow> error + dict" where
  "add_matching [] panel objects = Inr objects"
| "add_matching ((name, val) # objs) panel objects =
     (case getitem panel ''id'' of
        Inl e \<Rightarrow> Inl e
      | Inr pid \<Rightarrow>
          add_matching objs panel (if JStr name = pid then setitem objects name val else objects))"

text \<open>
  The loop over the panels. A \<open>KeyError\<close> in its body ends the whole function with the
  empty dict; any other exception leaves the function.
\<close>

fun panels_loop :: "dict \<Rightarrow> dict \<Rightarrow> json list \<Rightarrow> dict \<Rightarrow> error + dict" where
  "panels_loop vizs searches [] objects = Inr objects"
| "panels_loop vizs searches (panel # panels) objects =
     (case add_matching vizs panel objects of
        Inl (KeyError k) \<Rightarrow> Inr []
      | Inl e \<Rightarrow> Inl e
      | Inr objects1 \<Rightarrow>
          (case add_matching searches panel objects1 of
             Inl (KeyError k) \<Rightarrow> Inr []
           | Inl e \<Rightarrow> Inl e
           | Inr objects2 \<Rightarrow> panels_loop vizs searches panels objects2))"

text \<open>
  The loop over the dashboards; \<open>todo\<close> is the part of \<open>dashboards\<close> still to visit. The
  function returns from inside the loop at the dashboard it looks for. When the loop
  ends without having found it, the function ends without a \<open>return\<close>: the result is
  \<open>None\<close>, here \<open>Inr None\<close>.
\<close>

fun dashboards_loop ::
  "dict \<Rightarrow> dict \<Rightarrow> dict \<Rightarrow> dict \<Rightarrow> string \<Rightarrow> error + dict option" where
  "dashboards_loop dashboards vizs searches [] dboard = Inr None"
| "dashboards_loop dashboards vizs searches ((name, val) # todo) dboard =
     (if name = dboard then
        (let objects = setitem [] name val in
         case getitem (JObj dashboards) name of Inl e \<Rightarrow> Inl e | Inr dash \<Rightarrow>
         case getitem dash ''_source'' of Inl e \<Rightarrow> Inl e | Inr src \<Rightarrow>
         case getitem src ''panelsJSON'' of Inl e \<Rightarrow> Inl e | Inr pj \<Rightarrow>
         case loads pj of Inl e \<Rightarrow> Inl e | Inr panels \<Rightarrow>
         case py_iter panels of Inl e \<Rightarrow> Inl e | Inr ps \<Rightarrow>
         case panels_loop vizs searches ps objects of
           Inl e \<Rightarrow> Inl e
         | Inr result \<Rightarrow> Inr (Some result))
      else dashboards_loop dashboards vizs searches todo dboard)"

definition get_dashboard_full ::
  "'b backend \<Rightarrow> string \<Rightarrow> 'b state \<Rightarrow> (error + dict option) \<times> 'b state" where
  "get_dashboard_full be dboard s =
     (case get_objects be ''type'' ''dashboard'' s of
        (Inl e, s1) \<Rightarrow> (Inl e, s1)
      | (Inr dashboards, s1) \<Rightarrow>
     (case get_objects be ''type'' ''visualization'' s1 of
        (Inl e, s2) \<Rightarrow> (Inl e, s2)
      | (Inr vizs, s2) \<Rightarrow>
     (case get_objects be ''type'' ''search'' s2 of
        (Inl e, s3) \<Rightarrow> (Inl e, s3)
      | (Inr searches, s3) \<Rightarrow>
          (dashboards_loop dashboards vizs searches dashboards dboard, s3))))"

section \<open>Files\<close>

text \<open>
  The file system is a table from paths to contents, and a set of paths that can be
  opened for writing. Opening a path outside that set for writing, or a path without
  contents for reading, is an \<open>IOError\<close>.
\<close>

record filesystem =
  contents :: "string \<Rightarrow> string option"
  writable :: "string \<Rightarrow> bool"

definition write_file :: "filesystem \<Rightarrow> string \<Rightarrow> string \<Rightarrow> error + filesystem" where
  "write_file fs filename output =
     (if writable fs filename then Inr (fs\<lparr>contents := (contents fs)(filename \<mapsto> output)\<rparr>)
      else Inl IOError)"


text \<open>\<open>os.path.join(path, filename)\<close>\<close>

definition path_join :: "string \<Rightarrow> string \<Rightarrow> string" where
  "path_join path filename =
     (if filename \<noteq> [] \<and> hd filename = CHR ''/'' then filename
      else if path = [] \<or> last path = CHR ''/'' then path @ filename
      else path @ ''/'' @ filename)"

text \<open>\<open>"%s" % x\<close>\<close>

fun format_s :: "json \<Rightarrow> error + string" where
  "format_s (JStr s) = Inr s"
| "format_s JNull = Inr ''None''"
| "format_s (JBool b) = Inr (if b then ''True'' else ''False'')"
| "format_s (JInt i) = Inr (str_int i)"
| "format_s _ = Inl Unmodelled"



definition write_object_to_file ::
  "json \<Rightarrow> string \<Rightarrow> filesystem \<Rightarrow> (error + string) \<times> filesystem" where
  "write_object_to_file obj path fs =
     (let output = json_dumps obj @ [CHR 0x0A] in
      case getitem obj ''_type'' of Inl e \<Rightarrow> (Inl e, fs) | Inr t \<Rightarrow>
      case getitem obj ''_id'' of Inl e \<Rightarrow> (Inl e, fs) | Inr d \<Rightarrow>
      case format_s t of Inl e \<Rightarrow> (Inl e, fs) | Inr ts \<Rightarrow>
      case format_s d of Inl e \<Rightarrow> (Inl e, fs) | Inr ds \<Rightarrow>
      let filename = path_join path (ts @ ''-'' @ ds @ ''.json'') in
      case write_file fs filename output of
        Inl e \<Rightarrow> (Inl e, fs)
      | Inr fs' \<Rightarrow> (Inr filename, fs'))"

fun write_objects_to_file :: "dict \<Rightarrow> string \<Rightarrow> filesystem \<Rightarrow> (error + unit) \<times> filesystem" where
  "write_objects_to_file [] path fs = (Inr (), fs)"
| "write_objects_to_file ((name, obj) # objects) path fs =
     (case write_object_to_file obj path fs of
        (Inl e, fs1) \<Rightarrow> (Inl e, fs1)
      | (Inr _, fs1) \<Rightarrow> write_objects_to_file objects path fs1)"







section \<open>A scripted backend for concrete runs\<close>

text \<open>
  To run the operations on concrete inputs the backend parameter is instantiated with a
  script: the backend state is the list of answers still to give, and each request takes
  the next one, whatever the request is.
\<close>

fun scripted :: "(error + json) list backend" where
  "scripted c [] = (Inl (BackendError ''no answer left''), [])"
| "scripted c (r # rs) = (r, rs)"

definition start :: "(error + json) list \<Rightarrow> (error + json) list state" where
  "start answers = (init ''.kibana'' (''127.0.0.1'', 9200), \<lparr>bstate = answers, calls = []\<rparr>)"

definition search_result :: "json list \<Rightarrow> json" where
  "search_result hs = JObj [(''hits'', JObj [(''total'', JInt (int (length hs))), (''hits'', JArr hs)])]"

definition document :: "json \<Rightarrow> json \<Rightarrow> json \<Rightarrow> json \<Rightarrow> json" where
  "document i t d src = JObj [(''_index'', i), (''_type'', t), (''_id'', d), (''_source'', src)]"

section \<open>Theorems\<close>

text \<open>
  C9: \<open>connect_es\<close> is idempotent. It builds the connection handle only when there is
  none; called on a manager that has a handle it returns the manager unchanged, so a
  second call is a no-op.
\<close>

theorem connect_es_idempotent:
  "connect_es (connect_es self) = connect_es self
   \<and> (es self \<noteq> None \<longrightarrow> connect_es self = self)
   \<and> (es self = None \<longrightarrow>
        connect_es self = self\<lparr>es := Some (Elasticsearch [(host_ip self, host_port self)])\<rparr>)"
  by (simp add: connect_es_def)

theorem connect_es_idempotent_witness:
  "es (init ''.kibana'' (''127.0.0.1'', 9200)) = None
   \<and> es (connect_es (init ''.kibana'' (''127.0.0.1'', 9200)))
       = Some (Elasticsearch [(''127.0.0.1'', 9200)])
   \<and> es (connect_es (init ''.kibana'' (''127.0.0.1'', 9200))) \<noteq> None
   \<and> connect_es (connect_es (init ''.kibana'' (''127.0.0.1'', 9200)))
       = connect_es (init ''.kibana'' (''127.0.0.1'', 9200))"
  using connect_es_idempotent [of "init ''.kibana'' (''127.0.0.1'', 9200)"]
        connect_es_idempotent [of "connect_es (init ''.kibana'' (''127.0.0.1'', 9200))"]
  by (simp add: init_def connect_es_def)

subsection \<open>Validation in \<open>put_object\<close> and \<open>del_object\<close>\<close>

lemma put_object_missing_key:
  "getitem obj ''_index'' = Inl e \<Longrightarrow> put_object be obj s = (Inl e, s)"
  by (simp add: put_object_def)




text \<open>
  C5, as the code has it: \<open>del_object\<close> reads \<open>_index\<close>, \<open>_id\<close> and \<open>_type\<close>, in this
  order. A subscript that raises (\<open>KeyError\<close> for a dict without the key) ends
  \<open>del_object\<close> with that exception; a value that is \<open>None\<close> or the empty string ends it
  with \<open>Exception("Invalid Object")\<close>, the same message for the three fields. In both
  cases the manager and the world are left as they were: no connection is made and no
  request is sent. \<open>_source\<close> is not looked at. When the three values pass, exactly one
  delete request is sent; an exception of the backend (the document is not there) is
  the outcome of \<open>del_object\<close>, and otherwise \<open>del_object\<close> returns.
\<close>

theorem del_object_validation:
  "(\<forall>e. getitem obj ''_index'' = Inl e \<longrightarrow> del_object be obj s = (Inl e, s))
   \<and> (\<forall>i. getitem obj ''_index'' = Inr i \<and> none_or_empty i \<longrightarrow>
          del_object be obj s = (Inl (PyException ''Invalid Object''), s))
   \<and> (\<forall>i e. getitem obj ''_index'' = Inr i \<and> \<not> none_or_empty i
          \<and> getitem obj ''_id'' = Inl e \<longrightarrow>
          del_object be obj s = (Inl e, s))
   \<and> (\<forall>i d. getitem obj ''_index'' = Inr i \<and> \<not> none_or_empty i
          \<and> getitem obj ''_id'' = Inr d \<and> none_or_empty d \<longrightarrow>
          del_object be obj s = (Inl (PyException ''Invalid Object''), s))
   \<and> (\<forall>i d e. getitem obj ''_index'' = Inr i \<and> \<not> none_or_empty i
          \<and> getitem obj ''_id'' = Inr d \<and> \<not> none_or_empty d
          \<and> getitem obj ''_type'' = Inl e \<longrightarrow>
          del_object be obj s = (Inl e, s))
   \<and> (\<forall>i d t. getitem obj ''_index'' = Inr i \<and> \<not> none_or_empty i
          \<and> getitem obj ''_id'' = Inr d \<and> \<not> none_or_empty d
          \<and> getitem obj ''_type'' = Inr t \<and> none_or_empty t \<longrightarrow>
          del_object be obj s = (Inl (PyException ''Invalid Object''), s))
   \<and> (\<forall>i d t. getitem obj ''_index'' = Inr i \<and> \<not> none_or_empty i
          \<and> getitem obj ''_id'' = Inr d \<and> \<not> none_or_empty d
          \<and> getitem obj ''_type'' = Inr t \<and> \<not> none_or_empty t \<longrightarrow>
          calls (snd (snd (del_object be obj s))) = calls (snd s) @ [DeleteDoc i d t]
          \<and> fst (del_object be obj s) =
              (case fst (be (DeleteDoc i d t) (bstate (snd s))) of
                 Inl e \<Rightarrow> Inl e
               | Inr r \<Rightarrow> Inr ()))"
  by (auto simp: del_object_def es_call_def Let_def split: prod.splits sum.splits)

theorem del_object_validation_witness:
  "del_object scripted (document (JStr ''.kibana'') (JStr ''dashboard'') (JStr []) (JObj []))
     (start [Inl (BackendError ''NotFoundError'')])
   = (Inl (PyException ''Invalid Object''), start [Inl (BackendError ''NotFoundError'')])
   \<and> del_object scripted (JObj [(''_index'', JStr ''.kibana''), (''_id'', JStr ''d1'')])
     (start [Inl (BackendError ''NotFoundError'')])
   = (Inl (KeyError ''_type''), start [Inl (BackendError ''NotFoundError'')])
   \<and> calls (snd (snd (del_object scripted
       (JObj [(''_index'', JStr ''.kibana''), (''_id'', JStr ''d1''), (''_type'', JStr ''dashboard'')])
       (start [Inl (BackendError ''NotFoundError'')]))))
   = [DeleteDoc (JStr ''.kibana'') (JStr ''d1'') (JStr ''dashboard'')]
   \<and> fst (del_object scripted
       (JObj [(''_index'', JStr ''.kibana''), (''_id'', JStr ''d1''), (''_type'', JStr ''dashboard'')])
       (start [Inl (BackendError ''NotFoundError'')]))
   = Inl (BackendError ''NotFoundError'')
   \<and> fst (del_object scripted
       (JObj [(''_index'', JStr ''.kibana''), (''_id'', JStr ''d1''), (''_type'', JStr ''dashboard'')])
       (start [Inr (JObj [(''found'', JBool True)])]))
   = Inr ()"
  using
    del_object_validation [of "document (JStr ''.kibana'') (JStr ''dashboard'') (JStr []) (JObj [])"
      scripted "start [Inl (BackendError ''NotFoundError'')]"]
    del_object_validation [of "JObj [(''_index'', JStr ''.kibana''), (''_id'', JStr ''d1'')]"
      scripted "start [Inl (BackendError ''NotFoundError'')]"]
    del_object_validation [of
      "JObj [(''_index'', JStr ''.kibana''), (''_id'', JStr ''d1''), (''_type'', JStr ''dashboard'')]"
      scripted "start [Inl (BackendError ''NotFoundError'')]"]
    del_object_validation [of
      "JObj [(''_index'', JStr ''.kibana''), (''_id'', JStr ''d1''), (''_type'', JStr ''dashboard'')]"
      scripted "start [Inr (JObj [(''found'', JBool True)])]"]
  by (simp add: document_def none_or_empty_def start_def)

text \<open>
  The claim as the specification words it fails on the code. For a document with an
  empty \<open>_id\<close>, \<open>put_object\<close> raises an exception whose message names the field, and
  \<open>del_object\<close> one whose message does not: the two do not have the same shape. And a
  document with an empty \<open>_id\<close> that has no \<open>_index\<close> key makes \<open>del_object\<close> raise
  \<open>KeyError\<close>, not the exception for an invalid document.
\<close>

theorem del_object_shape_counterexample:
  "fst (put_object scripted
          (document (JStr ''.kibana'') (JStr ''dashboard'') (JStr []) (JObj [(''title'', JStr ''t'')]))
          (start []))
     = Inl (PyException ''Invalid Object, no _id'')
   \<and> fst (del_object scripted
          (document (JStr ''.kibana'') (JStr ''dashboard'') (JStr []) (JObj [(''title'', JStr ''t'')]))
          (start []))
     = Inl (PyException ''Invalid Object'')
   \<and> fst (del_object scripted (JObj [(''_id'', JStr []), (''_type'', JStr ''dashboard'')]) (start []))
     = Inl (KeyError ''_index'')"
  by (simp add: put_object_def del_object_def document_def none_or_empty_def)

subsection \<open>Dicts\<close>

lemma map_of_setitem: "map_of (setitem m k v) = (map_of m)(k \<mapsto> v)"
  by (induction m k v rule: setitem.induct) auto

lemma keys_setitem: "fst ` set (setitem m k v) = insert k (fst ` set m)"
  by (induction m k v rule: setitem.induct) auto

lemma distinct_setitem: "distinct (map fst m) \<Longrightarrow> distinct (map fst (setitem m k v))"
proof (induction m k v rule: setitem.induct)
  case (1 k v)
  then show ?case by simp
next
  case (2 k' v' kvs k v)
  have "fst ` set (setitem kvs k v) = insert k (fst ` set kvs)"
    by (rule keys_setitem)
  with 2 show ?case by auto
qed

lemma find_app:
  "find P (xs @ ys) = (case find P xs of None \<Rightarrow> find P ys | Some x \<Rightarrow> Some x)"
  by (induction xs) auto

lemma find_in_set: "find P xs = Some x \<Longrightarrow> x \<in> set xs \<and> P x"
  by (induction xs) (auto split: if_splits)

lemma hit_entry_document: "hit_entry idx t d src = document (JStr idx) t d src"
  by (simp add: hit_entry_def document_def)

subsection \<open>\<open>get_objects\<close>\<close>

lemma hits_loop_distinct:
  "hits_loop idx docs acc = Inr objects \<Longrightarrow> distinct (map fst acc) \<Longrightarrow> distinct (map fst objects)"
proof (induction docs arbitrary: acc)
  case Nil
  then show ?case by simp
next
  case (Cons doc docs)
  then show ?case
    by (auto split: sum.splits intro: distinct_setitem)
qed

lemma hits_loop_lookup:
  "hits_loop idx docs acc = Inr objects \<Longrightarrow>
   map_of objects k =
     (case find (\<lambda>doc. getitem doc ''_id'' = Inr (JStr k)) (rev docs) of
        None \<Rightarrow> map_of acc k
      | Some doc \<Rightarrow>
          (case (getitem doc ''_type'', getitem doc ''_source'') of
             (Inr t, Inr src) \<Rightarrow> Some (document (JStr idx) t (JStr k) src)
           | _ \<Rightarrow> None))"
proof (induction docs arbitrary: acc)
  case Nil
  then show ?case by simp
next
  case (Cons doc docs)
  from Cons.prems obtain d k0 t src where
    d: "getitem doc ''_id'' = Inr d" and k0: "dict_key d = Inr k0"
    and t: "getitem doc ''_type'' = Inr t" and src: "getitem doc ''_source'' = Inr src"
    and rest: "hits_loop idx docs (setitem acc k0 (hit_entry idx t d src)) = Inr objects"
    by (auto split: sum.splits)
  from k0 have dk: "d = JStr k0"
    by (cases d) auto
  show ?case
    using Cons.IH [OF rest] d t src dk
    by (auto simp: find_app map_of_setitem hit_entry_document split: option.splits)
qed

lemma hits_loop_keys:
  "hits_loop idx docs acc = Inr objects \<Longrightarrow>
   fst ` set objects = fst ` set acc \<union> {k. \<exists>doc\<in>set docs. getitem doc ''_id'' = Inr (JStr k)}"
proof (induction docs arbitrary: acc)
  case Nil
  then show ?case by simp
next
  case (Cons doc docs)
  from Cons.prems obtain d k0 t src where
    d: "getitem doc ''_id'' = Inr d" and k0: "dict_key d = Inr k0"
    and rest: "hits_loop idx docs (setitem acc k0 (hit_entry idx t d src)) = Inr objects"
    by (auto split: sum.splits)
  from k0 have dk: "d = JStr k0"
    by (cases d) auto
  show ?case
    using Cons.IH [OF rest] d dk
    by (auto simp: keys_setitem)
qed

lemma hits_loop_returns:
  "\<forall>doc\<in>set docs. \<exists>k t src. getitem doc ''_id'' = Inr (JStr k)
       \<and> getitem doc ''_type'' = Inr t \<and> getitem doc ''_source'' = Inr src \<Longrightarrow>
   \<exists>objects. hits_loop idx docs acc = Inr objects"
proof (induction docs arbitrary: acc)
  case Nil
  then show ?case by simp
next
  case (Cons doc docs)
  then show ?case by fastforce
qed

lemma get_objects_result:
  assumes "fst (be (Search (index (fst s)) (query_body (max_hits (fst s)) search_field search_val))
                 (bstate (snd s))) = Inr res"
    and "getitem res ''hits'' = Inr h" and "getitem h ''hits'' = Inr (JArr docs)"
  shows "fst (get_objects be search_field search_val s) = hits_loop (index (fst s)) docs []"
  using assms
  by (auto simp: get_objects_def es_call_def connect_es_def Let_def split: prod.splits sum.splits)

text \<open>
  C8, as the code has it. Let the backend answer the search with the hits \<open>docs\<close>. If
  every hit has a string \<open>_id\<close>, a \<open>_type\<close> and a \<open>_source\<close>, \<open>get_objects\<close> returns a
  dict. Whenever it returns a dict, the keys are pairwise different and are the ids of
  the hits, and the value under key \<open>k\<close> is built from the last hit whose \<open>_id\<close> is \<open>k\<close>:
  its \<open>_id\<close> is \<open>k\<close>, its \<open>_index\<close> is the manager's index, its \<open>_type\<close> and \<open>_source\<close>
  are the hit's. The type of a value is the type of its hit, so all values have type
  \<open>ty\<close> when all hits have.
\<close>

theorem get_objects_normalizes:
  assumes "fst (be (Search (index (fst s)) (query_body (max_hits (fst s)) search_field search_val))
                 (bstate (snd s))) = Inr res"
    and "getitem res ''hits'' = Inr h" and "getitem h ''hits'' = Inr (JArr docs)"
  shows "((\<forall>doc\<in>set docs. \<exists>k t src. getitem doc ''_id'' = Inr (JStr k)
             \<and> getitem doc ''_type'' = Inr t \<and> getitem doc ''_source'' = Inr src) \<longrightarrow>
          (\<exists>objects. fst (get_objects be search_field search_val s) = Inr objects))
       \<and> (\<forall>objects. fst (get_objects be search_field search_val s) = Inr objects \<longrightarrow>
            distinct (map fst objects)
          \<and> fst ` set objects = {k. \<exists>doc\<in>set docs. getitem doc ''_id'' = Inr (JStr k)}
          \<and> (\<forall>(k, v)\<in>set objects.
                \<exists>doc. find (\<lambda>doc. getitem doc ''_id'' = Inr (JStr k)) (rev docs) = Some doc
                  \<and> getitem v ''_id'' = Inr (JStr k)
                  \<and> getitem v ''_index'' = Inr (JStr (index (fst s)))
                  \<and> getitem v ''_type'' = getitem doc ''_type''
                  \<and> getitem v ''_source'' = getitem doc ''_source'')
          \<and> ((\<forall>doc\<in>set docs. getitem doc ''_type'' = Inr (JStr ty)) \<longrightarrow>
                (\<forall>(k, v)\<in>set objects. getitem v ''_type'' = Inr (JStr ty))))"
proof -
  let ?idx = "index (fst s)"
  have res: "fst (get_objects be search_field search_val s) = hits_loop ?idx docs []"
    using assms by (rule get_objects_result)
  have total: "(\<forall>doc\<in>set docs. \<exists>k t src. getitem doc ''_id'' = Inr (JStr k)
             \<and> getitem doc ''_type'' = Inr t \<and> getitem doc ''_source'' = Inr src) \<longrightarrow>
          (\<exists>objects. fst (get_objects be search_field search_val s) = Inr objects)"
    unfolding res using hits_loop_returns [of docs ?idx "[]"] by blast
  have partial: "distinct (map fst objects)
          \<and> fst ` set objects = {k. \<exists>doc\<in>set docs. getitem doc ''_id'' = Inr (JStr k)}
          \<and> (\<forall>(k, v)\<in>set objects.
                \<exists>doc. find (\<lambda>doc. getitem doc ''_id'' = Inr (JStr k)) (rev docs) = Some doc
                  \<and> getitem v ''_id'' = Inr (JStr k)
                  \<and> getitem v ''_index'' = Inr (JStr (index (fst s)))
                  \<and> getitem v ''_type'' = getitem doc ''_type''
                  \<and> getitem v ''_source'' = getitem doc ''_source'')
          \<and> ((\<forall>doc\<in>set docs. getitem doc ''_type'' = Inr (JStr ty)) \<longrightarrow>
                (\<forall>(k, v)\<in>set objects. getitem v ''_type'' = Inr (JStr ty)))"
    if ok: "hits_loop ?idx docs [] = Inr objects" for objects
  proof -
    have dist: "distinct (map fst objects)"
      using hits_loop_distinct [OF ok] by simp
    have keys: "fst ` set objects = {k. \<exists>doc\<in>set docs. getitem doc ''_id'' = Inr (JStr k)}"
      using hits_loop_keys [OF ok] by simp
    have entry: "\<exists>doc. find (\<lambda>doc. getitem doc ''_id'' = Inr (JStr k)) (rev docs) = Some doc
                  \<and> getitem v ''_id'' = Inr (JStr k)
                  \<and> getitem v ''_index'' = Inr (JStr ?idx)
                  \<and> getitem v ''_type'' = getitem doc ''_type''
                  \<and> getitem v ''_source'' = getitem doc ''_source''"
      if kv: "(k, v) \<in> set objects" for k v
    proof -
      from kv dist have "map_of objects k = Some v" by simp
      with hits_loop_lookup [OF ok, of k] show ?thesis
        by (auto simp: document_def split: option.splits sum.splits)
    qed
    have types: "getitem v ''_type'' = Inr (JStr ty)"
      if all: "\<forall>doc\<in>set docs. getitem doc ''_type'' = Inr (JStr ty)"
        and kv: "(k, v) \<in> set objects" for k v
    proof -
      from entry [OF kv] obtain doc where
        f: "find (\<lambda>doc. getitem doc ''_id'' = Inr (JStr k)) (rev docs) = Some doc"
        and t: "getitem v ''_type'' = getitem doc ''_type''" by blast
      from find_in_set [OF f] have "doc \<in> set docs"
        by simp
      with all t show ?thesis by simp
    qed
    from dist keys entry types show ?thesis by blast
  qed
  from total partial show ?thesis
    unfolding res by blast
qed

theorem get_objects_normalizes_witness:
  "fst (scripted (Search ''.kibana'' (query_body 9999 ''type'' ''dashboard''))
         [Inr (search_result
            [document (JStr ''logs'') (JStr ''dashboard'') (JStr ''d1'') (JObj [(''title'', JStr ''A'')]),
             document (JStr ''logs'') (JStr ''dashboard'') (JStr ''d1'') (JObj [(''title'', JStr ''B'')])])])
   = Inr (search_result
            [document (JStr ''logs'') (JStr ''dashboard'') (JStr ''d1'') (JObj [(''title'', JStr ''A'')]),
             document (JStr ''logs'') (JStr ''dashboard'') (JStr ''d1'') (JObj [(''title'', JStr ''B'')])])
   \<and> fst (get_objects scripted ''type'' ''dashboard''
       (start [Inr (search_result
            [document (JStr ''logs'') (JStr ''dashboard'') (JStr ''d1'') (JObj [(''title'', JStr ''A'')]),
             document (JStr ''logs'') (JStr ''dashboard'') (JStr ''d1'') (JObj [(''title'', JStr ''B'')])])]))
   = Inr [(''d1'', document (JStr ''.kibana'') (JStr ''dashboard'') (JStr ''d1'')
                     (JObj [(''title'', JStr ''B'')]))]"
proof -
  let ?docs = "[document (JStr ''logs'') (JStr ''dashboard'') (JStr ''d1'') (JObj [(''title'', JStr ''A'')]),
                document (JStr ''logs'') (JStr ''dashboard'') (JStr ''d1'') (JObj [(''title'', JStr ''B'')])]"
  let ?s = "start [Inr (search_result ?docs)]"
  have h1: "fst (scripted (Search (index (fst ?s)) (query_body (max_hits (fst ?s)) ''type'' ''dashboard''))
                  (bstate (snd ?s))) = Inr (search_result ?docs)"
    by (simp add: start_def)
  have h2: "getitem (search_result ?docs) ''hits''
              = Inr (JObj [(''total'', JInt (int (length ?docs))), (''hits'', JArr ?docs)])"
    by (simp add: search_result_def)
  have h3: "getitem (JObj [(''total'', JInt (int (length ?docs))), (''hits'', JArr ?docs)]) ''hits''
              = Inr (JArr ?docs)"
    by simp
  show ?thesis
    using get_objects_normalizes [where be = scripted and s = ?s and search_field = "''type''"
        and search_val = "''dashboard''" and ty = "''dashboard''", OF h1 h2 h3]
    by (simp add: get_objects_def start_def init_def connect_es_def es_call_def
        search_result_def document_def hit_entry_def)
qed

text \<open>
  The claim as the specification words it fails on the code for a search result whose
  hit is not a dashboard: \<open>get_objects\<close> copies the hit's type and does not compare it
  with the type it asked for.
\<close>

theorem get_objects_type_counterexample:
  "fst (get_objects scripted ''type'' ''dashboard''
     (start [Inr (search_result
        [document (JStr ''.kibana'') (JStr ''visualization'') (JStr ''v1'') (JObj [])])]))
   = Inr [(''v1'', document (JStr ''.kibana'') (JStr ''visualization'') (JStr ''v1'') (JObj []))]"
  by (simp add: get_objects_def start_def init_def connect_es_def es_call_def
      search_result_def document_def hit_entry_def)

subsection \<open>\<open>get_dashboard_full\<close>\<close>

lemma get_objects_distinct:
  assumes "get_objects be search_field search_val s = (Inr objects, s')"
  shows "distinct (map fst objects)"
proof -
  from assms obtain docs where "hits_loop (index (connect_es (fst s))) docs [] = Inr objects"
    by (auto simp: get_objects_def es_call_def Let_def split: prod.splits sum.splits)
  from hits_loop_distinct [OF this] show ?thesis by simp
qed

lemma get_dashboard_full_fetched:
  assumes "get_objects be ''type'' ''dashboard'' s = (Inr dashboards, s1)"
    and "get_objects be ''type'' ''visualization'' s1 = (Inr vizs, s2)"
    and "get_objects be ''type'' ''search'' s2 = (Inr searches, s3)"
  shows "get_dashboard_full be dboard s
           = (dashboards_loop dashboards vizs searches dashboards dboard, s3)"
  using assms by (simp add: get_dashboard_full_def)

lemma dashboards_loop_absent:
  "dboard \<notin> fst ` set todo \<Longrightarrow> dashboards_loop dashboards vizs searches todo dboard = Inr None"
  by (induction todo) auto

lemma dashboards_loop_found:
  assumes "map_of todo dboard = Some val" and "map_of dashboards dboard = Some dash"
  shows "dashboards_loop dashboards vizs searches todo dboard =
     (case getitem dash ''_source'' of Inl e \<Rightarrow> Inl e | Inr src \<Rightarrow>
      case getitem src ''panelsJSON'' of Inl e \<Rightarrow> Inl e | Inr pj \<Rightarrow>
      case loads pj of Inl e \<Rightarrow> Inl e | Inr panels \<Rightarrow>
      case py_iter panels of Inl e \<Rightarrow> Inl e | Inr ps \<Rightarrow>
      case panels_loop vizs searches ps [(dboard, val)] of
        Inl e \<Rightarrow> Inl e
      | Inr result \<Rightarrow> Inr (Some result))"
  using assms
proof (induction todo)
  case Nil
  then show ?case by simp
next
  case (Cons kv todo)
  obtain name v where kv: "kv = (name, v)" by (cases kv)
  show ?case
  proof (cases "name = dboard")
    case True
    with Cons.prems kv show ?thesis by simp
  next
    case False
    with Cons kv show ?thesis by simp
  qed
qed

text \<open>
  C1: when no fetched dashboard has the id \<open>dboard\<close>, the loop over the dashboards ends
  without reaching a \<open>return\<close>, and \<open>get_dashboard_full\<close> returns \<open>None\<close>. The empty
  dict, which the function returns for a panel without \<open>id\<close>, would be \<open>Inr (Some [])\<close>.
\<close>

theorem get_dashboard_full_absent:
  assumes "get_objects be ''type'' ''dashboard'' s = (Inr dashboards, s1)"
    and "get_objects be ''type'' ''visualization'' s1 = (Inr vizs, s2)"
    and "get_objects be ''type'' ''search'' s2 = (Inr searches, s3)"
    and "dboard \<notin> fst ` set dashboards"
  shows "fst (get_dashboard_full be dboard s) = Inr None
       \<and> fst (get_dashboard_full be dboard s) \<noteq> Inr (Some [])"
  using assms
  by (simp add: get_dashboard_full_fetched dashboards_loop_absent)

lemmas run_get_objects =
  get_objects_def start_def init_def connect_es_def es_call_def
  search_result_def document_def hit_entry_def

theorem get_dashboard_full_absent_witness:
  "''X'' \<notin> fst ` set [(''d1'', document (JStr ''.kibana'') (JStr ''dashboard'') (JStr ''d1'')
                                  (JObj [(''panelsJSON'', JStr ''[]'')]))]
   \<and> fst (get_dashboard_full scripted ''X''
       (start [Inr (search_result [document (JStr ''.kibana'') (JStr ''dashboard'') (JStr ''d1'')
                                     (JObj [(''panelsJSON'', JStr ''[]'')])]),
               Inr (search_result []), Inr (search_result [])]))
     = Inr None"
proof -
  let ?d1 = "document (JStr ''.kibana'') (JStr ''dashboard'') (JStr ''d1'')
               (JObj [(''panelsJSON'', JStr ''[]'')])"
  let ?s = "start [Inr (search_result [?d1]), Inr (search_result []), Inr (search_result [])]"
  let ?self = "connect_es (init ''.kibana'' (''127.0.0.1'', 9200))"
  let ?q = "\<lambda>t. Search ''.kibana'' (query_body 9999 ''type'' t)"
  let ?s1 = "(?self, \<lparr>bstate = [Inr (search_result []), Inr (search_result [])],
                       calls = [?q ''dashboard'']\<rparr>)"
  let ?s2 = "(?self, \<lparr>bstate = [Inr (search_result [])],
                       calls = [?q ''dashboard'', ?q ''visualization'']\<rparr>)"
  let ?s3 = "(?self, \<lparr>bstate = [],
                       calls = [?q ''dashboard'', ?q ''visualization'', ?q ''search'']\<rparr>)"
  have f1: "get_objects scripted ''type'' ''dashboard'' ?s = (Inr [(''d1'', ?d1)], ?s1)"
    by (simp add: run_get_objects)
  have f2: "get_objects scripted ''type'' ''visualization'' ?s1 = (Inr [], ?s2)"
    by (simp add: run_get_objects)
  have f3: "get_objects scripted ''type'' ''search'' ?s2 = (Inr [], ?s3)"
    by (simp add: run_get_objects)
  have absent: "''X'' \<notin> fst ` set [(''d1'', ?d1)]"
    by simp
  from get_dashboard_full_absent [OF f1 f2 f3 absent] absent show ?thesis
    by simp
qed

lemmas run_json_loads =
  parse_value.simps parse_elems.simps parse_members.simps
  json_loads_def skip_ws_def is_ws_def starts_with_def parse_number_def is_digit_def
  digits_val_def digit_val_def float_follows_def unescape_def

lemma get_dashboard_full_found:
  assumes "get_objects be ''type'' ''dashboard'' s = (Inr dashboards, s1)"
    and "get_objects be ''type'' ''visualization'' s1 = (Inr vizs, s2)"
    and "get_objects be ''type'' ''search'' s2 = (Inr searches, s3)"
    and "map_of dashboards dboard = Some dash"
  shows "fst (get_dashboard_full be dboard s) =
     (case getitem dash ''_source'' of Inl e \<Rightarrow> Inl e | Inr src \<Rightarrow>
      case getitem src ''panelsJSON'' of Inl e \<Rightarrow> Inl e | Inr pj \<Rightarrow>
      case loads pj of Inl e \<Rightarrow> Inl e | Inr panels \<Rightarrow>
      case py_iter panels of Inl e \<Rightarrow> Inl e | Inr ps \<Rightarrow>
      case panels_loop vizs searches ps [(dboard, dash)] of
        Inl e \<Rightarrow> Inl e
      | Inr result \<Rightarrow> Inr (Some result))"
  using assms
  by (simp add: get_dashboard_full_fetched dashboards_loop_found)

text \<open>
  C10: let \<open>dboard\<close> be among the fetched dashboards. When reading \<open>panelsJSON\<close> from its
  source raises, \<open>get_dashboard_full\<close> raises the same exception: a \<open>KeyError\<close> when the
  source is a dict without that key. When \<open>panelsJSON\<close> is a string that \<open>json.loads\<close>
  rejects, \<open>get_dashboard_full\<close> raises that exception, a \<open>ValueError\<close>. Neither is
  turned into the empty dict: both happen before the \<open>try\<close> block.
\<close>

theorem get_dashboard_full_panels_error:
  assumes "get_objects be ''type'' ''dashboard'' s = (Inr dashboards, s1)"
    and "get_objects be ''type'' ''visualization'' s1 = (Inr vizs, s2)"
    and "get_objects be ''type'' ''search'' s2 = (Inr searches, s3)"
    and "map_of dashboards dboard = Some dash"
    and "getitem dash ''_source'' = Inr src"
  shows "(\<forall>e. getitem src ''panelsJSON'' = Inl e \<longrightarrow>
            fst (get_dashboard_full be dboard s) = Inl e)
       \<and> (\<forall>kvs. src = JObj kvs \<and> ''panelsJSON'' \<notin> fst ` set kvs \<longrightarrow>
            fst (get_dashboard_full be dboard s) = Inl (KeyError ''panelsJSON''))
       \<and> (\<forall>text e. getitem src ''panelsJSON'' = Inr (JStr text) \<and> json_loads text = Inl e \<longrightarrow>
            fst (get_dashboard_full be dboard s) = Inl e)"
proof -
  have absent: "getitem (JObj kvs) ''panelsJSON'' = Inl (KeyError ''panelsJSON'')"
    if "''panelsJSON'' \<notin> fst ` set kvs" for kvs
    using that by (simp add: map_of_eq_None_iff [THEN iffD2])
  show ?thesis
    using get_dashboard_full_found [OF assms(1-4)] assms(5) absent
    by auto
qed

theorem get_dashboard_full_panels_error_witness:
  "fst (get_dashboard_full scripted ''d1''
       (start [Inr (search_result [document (JStr ''.kibana'') (JStr ''dashboard'') (JStr ''d1'')
                                     (JObj [(''title'', JStr ''t'')])]),
               Inr (search_result []), Inr (search_result [])]))
     = Inl (KeyError ''panelsJSON'')
   \<and> json_loads ''[{'' = Inl ValueError
   \<and> fst (get_dashboard_full scripted ''d1''
       (start [Inr (search_result [document (JStr ''.kibana'') (JStr ''dashboard'') (JStr ''d1'')
                                     (JObj [(''panelsJSON'', JStr ''[{'')])]),
               Inr (search_result []), Inr (search_result [])]))
     = Inl ValueError"
proof -
  let ?a = "document (JStr ''.kibana'') (JStr ''dashboard'') (JStr ''d1'') (JObj [(''title'', JStr ''t'')])"
  let ?b = "document (JStr ''.kibana'') (JStr ''dashboard'') (JStr ''d1'')
              (JObj [(''panelsJSON'', JStr ''[{'')])"
  let ?s = "\<lambda>d. start [Inr (search_result [d]), Inr (search_result []), Inr (search_result [])]"
  let ?self = "connect_es (init ''.kibana'' (''127.0.0.1'', 9200))"
  let ?q = "\<lambda>t. Search ''.kibana'' (query_body 9999 ''type'' t)"
  let ?s1 = "(?self, \<lparr>bstate = [Inr (search_result []), Inr (search_result [])],
                       calls = [?q ''dashboard'']\<rparr>)"
  let ?s2 = "(?self, \<lparr>bstate = [Inr (search_result [])],
                       calls = [?q ''dashboard'', ?q ''visualization'']\<rparr>)"
  let ?s3 = "(?self, \<lparr>bstate = [],
                       calls = [?q ''dashboard'', ?q ''visualization'', ?q ''search'']\<rparr>)"
  have a1: "get_objects scripted ''type'' ''dashboard'' (?s ?a) = (Inr [(''d1'', ?a)], ?s1)"
    by (simp add: run_get_objects)
  have b1: "get_objects scripted ''type'' ''dashboard'' (?s ?b) = (Inr [(''d1'', ?b)], ?s1)"
    by (simp add: run_get_objects)
  have f2: "get_objects scripted ''type'' ''visualization'' ?s1 = (Inr [], ?s2)"
    by (simp add: run_get_objects)
  have f3: "get_objects scripted ''type'' ''search'' ?s2 = (Inr [], ?s3)"
    by (simp add: run_get_objects)
  have a4: "map_of [(''d1'', ?a)] ''d1'' = Some ?a" and b4: "map_of [(''d1'', ?b)] ''d1'' = Some ?b"
    by simp_all
  have a5: "getitem ?a ''_source'' = Inr (JObj [(''title'', JStr ''t'')])"
    and b5: "getitem ?b ''_source'' = Inr (JObj [(''panelsJSON'', JStr ''[{'')])"
    by (simp_all add: document_def)
  have bad: "json_loads ''[{'' = Inl ValueError"
    by (simp add: run_json_loads)
  from get_dashboard_full_panels_error [OF a1 f2 f3 a4 a5]
       get_dashboard_full_panels_error [OF b1 f2 f3 b4 b5] bad
  show ?thesis by simp
qed

lemma add_matching_with_id:
  "getitem panel ''id'' = Inr pid \<Longrightarrow> \<exists>objects'. add_matching objs panel objects = Inr objects'"
  by (induction objs arbitrary: objects) auto

lemma add_matching_without_id:
  "getitem panel ''id'' = Inl e \<Longrightarrow> objs \<noteq> [] \<Longrightarrow> add_matching objs panel objects = Inl e"
  by (cases objs) auto

text \<open>
  When a visualization or a search has been fetched, a panel that is a dict without
  \<open>id\<close> ends the function with the empty dict, provided the panels before it have an
  \<open>id\<close>.
\<close>

lemma panels_loop_without_id:
  assumes "\<forall>p\<in>set good. \<exists>pid. getitem p ''id'' = Inr pid"
    and "getitem bad ''id'' = Inl (KeyError k)"
    and "vizs \<noteq> [] \<or> searches \<noteq> []"
  shows "panels_loop vizs searches (good @ bad # rest) objects = Inr []"
  using assms(1)
proof (induction good arbitrary: objects)
  case Nil
  show ?case
  proof (cases "vizs = []")
    case True
    with assms(3) have "searches \<noteq> []" by simp
    with True assms(2) show ?thesis
      by (simp add: add_matching_without_id)
  next
    case False
    with assms(2) show ?thesis
      by (simp add: add_matching_without_id)
  qed
next
  case (Cons p good)
  then obtain pid where pid: "getitem p ''id'' = Inr pid" by auto
  from add_matching_with_id [OF pid] obtain o1 where o1: "add_matching vizs p objects = Inr o1"
    by blast
  from add_matching_with_id [OF pid] obtain o2 where o2: "add_matching searches p o1 = Inr o2"
    by blast
  from Cons o1 o2 show ?case by simp
qed

text \<open>
  C2 fails on the code when neither a visualization nor a search has been fetched: the
  loops in which \<open>panel['id']\<close> stands have nothing to run over, no \<open>KeyError\<close> is raised,
  and the dashboard is returned although its second panel has no \<open>id\<close>.
\<close>

theorem get_dashboard_full_panel_without_id:
  "json_loads ''[{\"id\": \"v1\"}, {\"type\": \"visualization\"}]''
     = Inr (JArr [JObj [(''id'', JStr ''v1'')], JObj [(''type'', JStr ''visualization'')]])
   \<and> fst (get_dashboard_full scripted ''d1''
       (start [Inr (search_result [document (JStr ''.kibana'') (JStr ''dashboard'') (JStr ''d1'')
                 (JObj [(''panelsJSON'',
                         JStr ''[{\"id\": \"v1\"}, {\"type\": \"visualization\"}]'')])]),
               Inr (search_result []), Inr (search_result [])]))
     = Inr (Some [(''d1'', document (JStr ''.kibana'') (JStr ''dashboard'') (JStr ''d1'')
                 (JObj [(''panelsJSON'',
                         JStr ''[{\"id\": \"v1\"}, {\"type\": \"visualization\"}]'')]))])"
  by (simp add: get_dashboard_full_def run_get_objects run_json_loads)

text \<open>
  One run of the loop over the visualizations or the searches, for a panel that has an
  \<open>id\<close>: the object with that id, if there is one, is put into the result.
\<close>

lemma add_matching_lookup:
  assumes "distinct (map fst objs)" and "getitem panel ''id'' = Inr pid"
  shows "\<exists>objects'. add_matching objs panel objects = Inr objects'
           \<and> (distinct (map fst objects) \<longrightarrow> distinct (map fst objects'))
           \<and> map_of objects' =
               (case pid of
                  JStr k \<Rightarrow> (case map_of objs k of
                               None \<Rightarrow> map_of objects
                             | Some v \<Rightarrow> (map_of objects)(k \<mapsto> v))
                | _ \<Rightarrow> map_of objects)"
  using assms(1)
proof (induction objs arbitrary: objects)
  case Nil
  show ?case by (cases pid) simp_all
next
  case (Cons kv objs)
  obtain name val where kv: "kv = (name, val)" by (cases kv)
  from Cons.prems kv have dist: "distinct (map fst objs)" and fresh: "name \<notin> fst ` set objs"
    by auto
  from fresh have none: "map_of objs name = None"
    by (simp add: map_of_eq_None_iff)
  show ?case
  proof (cases "JStr name = pid")
    case True
    from Cons.IH [OF dist, of "setitem objects name val"] obtain objects' where
      run: "add_matching objs panel (setitem objects name val) = Inr objects'"
      and d: "distinct (map fst (setitem objects name val)) \<longrightarrow> distinct (map fst objects')"
      and m: "map_of objects' =
               (case pid of
                  JStr k \<Rightarrow> (case map_of objs k of
                               None \<Rightarrow> map_of (setitem objects name val)
                             | Some v \<Rightarrow> (map_of (setitem objects name val))(k \<mapsto> v))
                | _ \<Rightarrow> map_of (setitem objects name val))"
      by blast
    from True assms(2) kv run have "add_matching (kv # objs) panel objects = Inr objects'"
      by simp
    moreover from d have "distinct (map fst objects) \<longrightarrow> distinct (map fst objects')"
      by (simp add: distinct_setitem)
    moreover from m True none kv have "map_of objects' =
               (case pid of
                  JStr k \<Rightarrow> (case map_of (kv # objs) k of
                               None \<Rightarrow> map_of objects
                             | Some v \<Rightarrow> (map_of objects)(k \<mapsto> v))
                | _ \<Rightarrow> map_of objects)"
      by (auto simp: map_of_setitem)
    ultimately show ?thesis by blast
  next
    case False
    from Cons.IH [OF dist, of objects] obtain objects' where
      run: "add_matching objs panel objects = Inr objects'"
      and d: "distinct (map fst objects) \<longrightarrow> distinct (map fst objects')"
      and m: "map_of objects' =
               (case pid of
                  JStr k \<Rightarrow> (case map_of objs k of
                               None \<Rightarrow> map_of objects
                             | Some v \<Rightarrow> (map_of objects)(k \<mapsto> v))
                | _ \<Rightarrow> map_of objects)"
      by blast
    from False assms(2) kv run have "add_matching (kv # objs) panel objects = Inr objects'"
      by simp
    moreover from m False kv have "map_of objects' =
               (case pid of
                  JStr k \<Rightarrow> (case map_of (kv # objs) k of
                               None \<Rightarrow> map_of objects
                             | Some v \<Rightarrow> (map_of objects)(k \<mapsto> v))
                | _ \<Rightarrow> map_of objects)"
      by (cases pid) auto
    ultimately show ?thesis using d by blast
  qed
qed

text \<open>
  The loop over panels that all refer to the visualization \<open>v\<close> or to the search \<open>s\<close>,
  when no search has the id \<open>v\<close>.
\<close>

lemma panels_loop_two:
  assumes "distinct (map fst vizs)" and "distinct (map fst searches)"
    and "map_of vizs v = Some V1" and "map_of searches s = Some S1"
    and "map_of searches v = None"
    and "\<forall>p\<in>set ps. getitem p ''id'' = Inr (JStr v) \<or> getitem p ''id'' = Inr (JStr s)"
    and "distinct (map fst objects)"
  shows "\<exists>result. panels_loop vizs searches ps objects = Inr result
           \<and> distinct (map fst result)
           \<and> (\<forall>k. k \<noteq> v \<and> k \<noteq> s \<longrightarrow> map_of result k = map_of objects k)
           \<and> map_of result v =
               (if \<exists>p\<in>set ps. getitem p ''id'' = Inr (JStr v) then Some V1 else map_of objects v)
           \<and> map_of result s =
               (if \<exists>p\<in>set ps. getitem p ''id'' = Inr (JStr s) then Some S1 else map_of objects s)"
  using assms(6,7)
proof (induction ps arbitrary: objects)
  case Nil
  then show ?case by simp
next
  case (Cons p ps)
  from assms(4,5) have vs: "v \<noteq> s" by auto
  from Cons.prems have rest: "\<forall>p\<in>set ps. getitem p ''id'' = Inr (JStr v) \<or> getitem p ''id'' = Inr (JStr s)"
    by simp
  from Cons.prems obtain k where pk: "getitem p ''id'' = Inr (JStr k)" and k: "k = v \<or> k = s"
    by auto
  from add_matching_lookup [OF assms(1) pk, of objects] Cons.prems(2) obtain o1 where
    r1: "add_matching vizs p objects = Inr o1" and d1: "distinct (map fst o1)"
    and m1: "map_of o1 = (case map_of vizs k of None \<Rightarrow> map_of objects
                          | Some w \<Rightarrow> (map_of objects)(k \<mapsto> w))"
    by auto
  from add_matching_lookup [OF assms(2) pk, of o1] d1 obtain o2 where
    r2: "add_matching searches p o1 = Inr o2" and d2: "distinct (map fst o2)"
    and m2: "map_of o2 = (case map_of searches k of None \<Rightarrow> map_of o1
                          | Some w \<Rightarrow> (map_of o1)(k \<mapsto> w))"
    by auto
  have step: "map_of o2 = (map_of objects)(k \<mapsto> (if k = v then V1 else S1))"
  proof (cases "k = v")
    case True
    with m1 m2 assms(3,5) show ?thesis by simp
  next
    case False
    with k have "k = s" by simp
    with m1 m2 assms(4) vs show ?thesis
      by (auto split: option.splits)
  qed
  from Cons.IH [OF rest d2] obtain result where
    run: "panels_loop vizs searches ps o2 = Inr result" and dr: "distinct (map fst result)"
    and other: "\<forall>k. k \<noteq> v \<and> k \<noteq> s \<longrightarrow> map_of result k = map_of o2 k"
    and rv: "map_of result v =
               (if \<exists>p\<in>set ps. getitem p ''id'' = Inr (JStr v) then Some V1 else map_of o2 v)"
    and rs: "map_of result s =
               (if \<exists>p\<in>set ps. getitem p ''id'' = Inr (JStr s) then Some S1 else map_of o2 s)"
    by blast
  from r1 r2 run have "panels_loop vizs searches (p # ps) objects = Inr result"
    by simp
  moreover from other step k have "\<forall>k. k \<noteq> v \<and> k \<noteq> s \<longrightarrow> map_of result k = map_of objects k"
    by auto
  moreover from rv step pk k vs have "map_of result v =
      (if \<exists>q\<in>set (p # ps). getitem q ''id'' = Inr (JStr v) then Some V1 else map_of objects v)"
    by auto
  moreover from rs step pk k vs have "map_of result s =
      (if \<exists>q\<in>set (p # ps). getitem q ''id'' = Inr (JStr s) then Some S1 else map_of objects s)"
    by auto
  ultimately show ?case using dr by blast
qed

text \<open>
  When the three ids are pairwise different the export is complete. Let the dashboard
  \<open>x\<close> be among the fetched dashboards, with a \<open>panelsJSON\<close> that is a list of panels
  whose ids are \<open>v\<close> and \<open>s\<close>, a fetched visualization and a fetched search. If \<open>x\<close> is
  neither \<open>v\<close> nor \<open>s\<close> and no fetched search has the id \<open>v\<close>, \<open>get_dashboard_full\<close>
  returns a dict with exactly three items: the dashboard under \<open>x\<close>, the visualization
  under \<open>v\<close>, the search under \<open>s\<close>.
\<close>

lemma get_dashboard_full_closure:
  assumes "get_objects be ''type'' ''dashboard'' st = (Inr dashboards, s1)"
    and "get_objects be ''type'' ''visualization'' s1 = (Inr vizs, s2)"
    and "get_objects be ''type'' ''search'' s2 = (Inr searches, s3)"
    and "map_of dashboards x = Some X"
    and "getitem X ''_source'' = Inr src"
    and "getitem src ''panelsJSON'' = Inr (JStr text)"
    and "json_loads text = Inr (JArr ps)"
    and "(\<lambda>p. getitem p ''id'') ` set ps = {Inr (JStr v), Inr (JStr s)}"
    and "map_of vizs v = Some V1" and "map_of searches s = Some S1"
    and "x \<noteq> v" and "x \<noteq> s" and "map_of searches v = None"
  shows "\<exists>result. fst (get_dashboard_full be x st) = Inr (Some result)
           \<and> distinct (map fst result)
           \<and> set result = {(x, X), (v, V1), (s, S1)}"
proof -
  have dv: "distinct (map fst vizs)" and ds: "distinct (map fst searches)"
    using assms(2,3) by (auto dest: get_objects_distinct)
  from assms(8) have ids: "\<forall>p\<in>set ps. getitem p ''id'' = Inr (JStr v) \<or> getitem p ''id'' = Inr (JStr s)"
    by auto
  from assms(8) have hasv: "\<exists>p\<in>set ps. getitem p ''id'' = Inr (JStr v)"
    and hass: "\<exists>p\<in>set ps. getitem p ''id'' = Inr (JStr s)"
    by (metis (mono_tags, lifting) imageE insertI1, metis (mono_tags, lifting) imageE insertCI)
  from panels_loop_two [OF dv ds assms(9,10,13) ids, of "[(x, X)]"] hasv hass assms(11,12)
  obtain result where
    run: "panels_loop vizs searches ps [(x, X)] = Inr result" and dr: "distinct (map fst result)"
    and other: "\<forall>k. k \<noteq> v \<and> k \<noteq> s \<longrightarrow> map_of result k = map_of [(x, X)] k"
    and rv: "map_of result v = Some V1" and rs: "map_of result s = Some S1"
    by auto
  have "((k, y) \<in> set result) = ((k, y) \<in> {(x, X), (v, V1), (s, S1)})" for k y
  proof -
    have "((k, y) \<in> set result) = (map_of result k = Some y)"
      using dr by simp
    also have "\<dots> = ((k, y) \<in> {(x, X), (v, V1), (s, S1)})"
      using other rv rs assms(11,12) by (cases "k = v"; cases "k = s") auto
    finally show ?thesis .
  qed
  then have "set result = {(x, X), (v, V1), (s, S1)}"
    by (intro set_eqI) (simp only: split_paired_all)
  moreover have "fst (get_dashboard_full be x st) = Inr (Some result)"
    using get_dashboard_full_found [OF assms(1-4)] assms(5,6,7) run by simp
  ultimately show ?thesis using dr by blast
qed

lemma get_dashboard_full_closure_example:
  "json_loads ''[{\"id\": \"v1\", \"col\": 1}, {\"id\": \"s1\", \"col\": 2}]''
     = Inr (JArr [JObj [(''id'', JStr ''v1''), (''col'', JInt 1)],
                  JObj [(''id'', JStr ''s1''), (''col'', JInt 2)]])
   \<and> (\<exists>result.
        fst (get_dashboard_full scripted ''d1''
          (start [Inr (search_result [document (JStr ''.kibana'') (JStr ''dashboard'') (JStr ''d1'')
                    (JObj [(''panelsJSON'',
                            JStr ''[{\"id\": \"v1\", \"col\": 1}, {\"id\": \"s1\", \"col\": 2}]'')])]),
                  Inr (search_result [document (JStr ''.kibana'') (JStr ''visualization'')
                                        (JStr ''v1'') (JObj [(''title'', JStr ''V'')])]),
                  Inr (search_result [document (JStr ''.kibana'') (JStr ''search'')
                                        (JStr ''s1'') (JObj [(''title'', JStr ''S'')])])]))
          = Inr (Some result)
        \<and> distinct (map fst result)
        \<and> set result =
            {(''d1'', document (JStr ''.kibana'') (JStr ''dashboard'') (JStr ''d1'')
                    (JObj [(''panelsJSON'',
                            JStr ''[{\"id\": \"v1\", \"col\": 1}, {\"id\": \"s1\", \"col\": 2}]'')])),
             (''v1'', document (JStr ''.kibana'') (JStr ''visualization'') (JStr ''v1'')
                    (JObj [(''title'', JStr ''V'')])),
             (''s1'', document (JStr ''.kibana'') (JStr ''search'') (JStr ''s1'')
                    (JObj [(''title'', JStr ''S'')]))})"
proof -
  let ?text = "''[{\"id\": \"v1\", \"col\": 1}, {\"id\": \"s1\", \"col\": 2}]''"
  let ?ps = "[JObj [(''id'', JStr ''v1''), (''col'', JInt 1)],
              JObj [(''id'', JStr ''s1''), (''col'', JInt 2)]]"
  let ?src = "JObj [(''panelsJSON'', JStr ?text)]"
  let ?X = "document (JStr ''.kibana'') (JStr ''dashboard'') (JStr ''d1'') ?src"
  let ?V = "document (JStr ''.kibana'') (JStr ''visualization'') (JStr ''v1'')
              (JObj [(''title'', JStr ''V'')])"
  let ?S = "document (JStr ''.kibana'') (JStr ''search'') (JStr ''s1'')
              (JObj [(''title'', JStr ''S'')])"
  let ?st = "start [Inr (search_result [?X]), Inr (search_result [?V]), Inr (search_result [?S])]"
  let ?self = "connect_es (init ''.kibana'' (''127.0.0.1'', 9200))"
  let ?q = "\<lambda>t. Search ''.kibana'' (query_body 9999 ''type'' t)"
  let ?s1 = "(?self, \<lparr>bstate = [Inr (search_result [?V]), Inr (search_result [?S])],
                       calls = [?q ''dashboard'']\<rparr>)"
  let ?s2 = "(?self, \<lparr>bstate = [Inr (search_result [?S])],
                       calls = [?q ''dashboard'', ?q ''visualization'']\<rparr>)"
  let ?s3 = "(?self, \<lparr>bstate = [],
                       calls = [?q ''dashboard'', ?q ''visualization'', ?q ''search'']\<rparr>)"
  have f1: "get_objects scripted ''type'' ''dashboard'' ?st = (Inr [(''d1'', ?X)], ?s1)"
    by (simp add: run_get_objects)
  have f2: "get_objects scripted ''type'' ''visualization'' ?s1 = (Inr [(''v1'', ?V)], ?s2)"
    by (simp add: run_get_objects)
  have f3: "get_objects scripted ''type'' ''search'' ?s2 = (Inr [(''s1'', ?S)], ?s3)"
    by (simp add: run_get_objects)
  have h4: "map_of [(''d1'', ?X)] ''d1'' = Some ?X"
    by simp
  have h5: "getitem ?X ''_source'' = Inr ?src"
    by (simp add: document_def)
  have h6: "getitem ?src ''panelsJSON'' = Inr (JStr ?text)"
    by simp
  have h7: "json_loads ?text = Inr (JArr ?ps)"
    by (simp add: run_json_loads)
  have h8: "(\<lambda>p. getitem p ''id'') ` set ?ps = {Inr (JStr ''v1''), Inr (JStr ''s1'')}"
    by simp
  have h9: "map_of [(''v1'', ?V)] ''v1'' = Some ?V" and h10: "map_of [(''s1'', ?S)] ''s1'' = Some ?S"
    and h11: "''d1'' \<noteq> ''v1''" and h12: "''d1'' \<noteq> ''s1''"
    and h13: "map_of [(''s1'', ?S)] ''v1'' = None"
    by simp_all
  from get_dashboard_full_closure [OF f1 f2 f3 h4 h5 h6 h7 h8 h9 h10 h11 h12 h13] h7
  show ?thesis by blast
qed

text \<open>
  C3 fails on the code when the visualization has the id of the dashboard. The result
  is keyed by id alone, across the three types, so \<open>objects[vname] = vval\<close> overwrites
  what \<open>objects[name] = val\<close> has put there: the export of dashboard \<open>a\<close>, whose panels
  show the visualization \<open>a\<close> and the search \<open>s\<close>, holds the visualization and the
  search, and not the dashboard.
\<close>

theorem get_dashboard_full_same_id:
  "json_loads ''[{\"id\": \"a\"}, {\"id\": \"s\"}]''
     = Inr (JArr [JObj [(''id'', JStr ''a'')], JObj [(''id'', JStr ''s'')]])
   \<and> fst (get_dashboard_full scripted ''a''
     (start [Inr (search_result [document (JStr ''.kibana'') (JStr ''dashboard'') (JStr ''a'')
               (JObj [(''panelsJSON'', JStr ''[{\"id\": \"a\"}, {\"id\": \"s\"}]'')])]),
             Inr (search_result [document (JStr ''.kibana'') (JStr ''visualization'')
                                   (JStr ''a'') (JObj [(''title'', JStr ''V'')])]),
             Inr (search_result [document (JStr ''.kibana'') (JStr ''search'')
                                   (JStr ''s'') (JObj [(''title'', JStr ''S'')])])]))
   = Inr (Some [(''a'', document (JStr ''.kibana'') (JStr ''visualization'') (JStr ''a'')
                          (JObj [(''title'', JStr ''V'')])),
                (''s'', document (JStr ''.kibana'') (JStr ''search'') (JStr ''s'')
                          (JObj [(''title'', JStr ''S'')]))])"
  by (simp add: get_dashboard_full_def run_get_objects run_json_loads)

subsection \<open>The decoder consumes what it reads\<close>

lemma skip_ws_length: "length (skip_ws s) \<le> length s"
  by (simp add: skip_ws_def length_dropWhile_le)

lemma skip_ws_Cons_length: "skip_ws s = c # cs \<Longrightarrow> length cs < length s"
  using skip_ws_length [of s] by simp

lemma scan_string_shorter: "scan_string t = Inr (str, rest) \<Longrightarrow> length rest < length t"
proof (induction t arbitrary: str rest rule: scan_string.induct)
  case 1
  then show ?case by simp
next
  case (2 c cs)
  then show ?case
    by (fastforce split: if_splits list.splits sum.splits option.splits)
qed

lemma parse_number_shorter:
  assumes "parse_number s = Inr (v, rest)"
  shows "length rest < length s"
proof -
  let ?s1 = "if s \<noteq> [] \<and> hd s = CHR ''-'' then tl s else s"
  let ?digits = "takeWhile is_digit ?s1"
  let ?intpart = "if hd ?digits = CHR ''0'' then ''0'' else ?digits"
  from assms have digits: "?digits \<noteq> []" and rest: "rest = drop (length ?intpart) ?s1"
    by (auto simp: parse_number_def Let_def split: if_splits)
  from digits have "?s1 \<noteq> []"
    by auto
  moreover from digits have "0 < length ?intpart"
    by auto
  ultimately have "length rest < length ?s1"
    unfolding rest by simp
  moreover have "length ?s1 \<le> length s"
    by simp
  ultimately show ?thesis by simp
qed

lemma starts_with_length: "starts_with p s \<Longrightarrow> length p \<le> length s"
  by (metis starts_with_def length_take min.cobounded1)

text \<open>
  Every successful call of the decoder returns a rest that is shorter than its input.
  So the two tests on the lengths in \<open>parse_elems\<close> and \<open>parse_members\<close> never fail.
\<close>

lemma parse_value_shorter:
  "parse_value s = Inr (v, rest) \<Longrightarrow> length rest < length s"
  "parse_elems s acc = Inr (v, rest) \<Longrightarrow> length rest < length s"
  "parse_members s macc = Inr (v, rest) \<Longrightarrow> length rest < length s"
proof (induction s and s acc and s macc arbitrary: v rest and v rest and v rest
    rule: parse_value_parse_elems_parse_members.induct)
  case (1 s)
  from "1.prems" obtain c cs where s: "s = c # cs"
    by (subst (asm) parse_value.simps) (auto split: list.splits)
  consider (str) "c = CHR 0x22"
    | (obj) "c \<noteq> CHR 0x22" "c = CHR ''{''"
    | (arr) "c \<noteq> CHR 0x22" "c \<noteq> CHR ''{''" "c = CHR ''[''"
    | (other) "c \<noteq> CHR 0x22" "c \<noteq> CHR ''{''" "c \<noteq> CHR ''[''"
    by blast
  then show ?case
  proof cases
    case str
    with "1.prems" s obtain str' where "scan_string cs = Inr (str', rest)"
      by (subst (asm) parse_value.simps) (auto split: sum.splits)
    from scan_string_shorter [OF this] s show ?thesis by simp
  next
    case obj
    with "1.prems" s obtain c1 cs1 where sk: "skip_ws cs = c1 # cs1"
      and r: "(c1 = CHR ''}'' \<and> rest = cs1) \<or> (c1 \<noteq> CHR ''}'' \<and> parse_members (c1 # cs1) [] = Inr (v, rest))"
      by (subst (asm) parse_value.simps) (auto split: list.splits if_splits)
    from r show ?thesis
    proof
      assume "c1 = CHR ''}'' \<and> rest = cs1"
      with skip_ws_Cons_length [OF sk] s show ?thesis by simp
    next
      assume "c1 \<noteq> CHR ''}'' \<and> parse_members (c1 # cs1) [] = Inr (v, rest)"
      then have neq: "c1 \<noteq> CHR ''}''" and run: "parse_members (c1 # cs1) [] = Inr (v, rest)"
        by simp_all
      have "length rest < length (c1 # cs1)"
        by (rule "1.IH"(1) [OF s obj(1) obj(2) sk neq run])
      with skip_ws_length [of cs] sk s show ?thesis by simp
    qed
  next
    case arr
    with "1.prems" s obtain c1 cs1 where sk: "skip_ws cs = c1 # cs1"
      and r: "(c1 = CHR '']'' \<and> rest = cs1) \<or> (c1 \<noteq> CHR '']'' \<and> parse_elems (c1 # cs1) [] = Inr (v, rest))"
      by (subst (asm) parse_value.simps) (auto split: list.splits if_splits)
    from r show ?thesis
    proof
      assume "c1 = CHR '']'' \<and> rest = cs1"
      with skip_ws_Cons_length [OF sk] s show ?thesis by simp
    next
      assume "c1 \<noteq> CHR '']'' \<and> parse_elems (c1 # cs1) [] = Inr (v, rest)"
      then have neq: "c1 \<noteq> CHR '']''" and run: "parse_elems (c1 # cs1) [] = Inr (v, rest)"
        by simp_all
      have "length rest < length (c1 # cs1)"
        by (rule "1.IH"(2) [OF s arr(1) arr(2) arr(3) sk neq run])
      with skip_ws_length [of cs] sk s show ?thesis by simp
    qed
  next
    case other
    with "1.prems" s have "(starts_with ''null'' s \<and> rest = drop 4 s)
        \<or> (starts_with ''true'' s \<and> rest = drop 4 s)
        \<or> (starts_with ''false'' s \<and> rest = drop 5 s)
        \<or> parse_number s = Inr (v, rest)"
      by (subst (asm) parse_value.simps) (auto split: if_splits)
    then show ?thesis
      using s by (auto dest: starts_with_length parse_number_shorter)
  qed
next
  case (2 s acc)
  from "2.prems" obtain v1 rest1 c cs where val: "parse_value s = Inr (v1, rest1)"
    and shorter: "length rest1 < length s" and sk: "skip_ws rest1 = c # cs"
    and r: "(c = CHR '']'' \<and> rest = cs)
        \<or> (c \<noteq> CHR '']'' \<and> c = CHR '','' \<and> parse_elems (skip_ws cs) (acc @ [v1]) = Inr (v, rest))"
    by (subst (asm) parse_elems.simps) (auto split: sum.splits list.splits if_splits)
  from r show ?case
  proof
    assume "c = CHR '']'' \<and> rest = cs"
    with skip_ws_Cons_length [OF sk] shorter show ?thesis by simp
  next
    assume "c \<noteq> CHR '']'' \<and> c = CHR '','' \<and> parse_elems (skip_ws cs) (acc @ [v1]) = Inr (v, rest)"
    then have neq: "c \<noteq> CHR '']''" and comma: "c = CHR '',''"
      and run: "parse_elems (skip_ws cs) (acc @ [v1]) = Inr (v, rest)"
      by simp_all
    have "length rest < length (skip_ws cs)"
      by (rule "2.IH"(2) [OF val refl shorter sk neq comma run])
    with skip_ws_length [of cs] skip_ws_Cons_length [OF sk] shorter show ?thesis by simp
  qed
next
  case (3 s macc)
  from "3.prems" obtain c cs key rest0 c1 cs1 v1 rest2 c2 cs2 where s: "s = c # cs" "c = CHR 0x22"
    and key: "scan_string cs = Inr (key, rest0)" and sk1: "skip_ws rest0 = c1 # cs1" "c1 = CHR '':''"
    and val: "parse_value (skip_ws cs1) = Inr (v1, rest2)"
    and shorter: "length rest2 < length (skip_ws cs1)" and sk2: "skip_ws rest2 = c2 # cs2"
    and r: "(c2 = CHR ''}'' \<and> rest = cs2)
        \<or> (c2 \<noteq> CHR ''}'' \<and> c2 = CHR '','' \<and> parse_members (skip_ws cs2) (setitem macc key v1) = Inr (v, rest))"
    by (subst (asm) parse_members.simps) (auto split: sum.splits list.splits if_splits)
  have bound: "length cs2 < length s"
    using skip_ws_Cons_length [OF sk2] shorter skip_ws_length [of cs1]
      skip_ws_Cons_length [OF sk1(1)] scan_string_shorter [OF key] s(1)
    by simp
  from r show ?case
  proof
    assume "c2 = CHR ''}'' \<and> rest = cs2"
    with bound show ?thesis by simp
  next
    assume "c2 \<noteq> CHR ''}'' \<and> c2 = CHR '','' \<and> parse_members (skip_ws cs2) (setitem macc key v1) = Inr (v, rest)"
    then have neq: "c2 \<noteq> CHR ''}''" and comma: "c2 = CHR '',''"
      and run: "parse_members (skip_ws cs2) (setitem macc key v1) = Inr (v, rest)"
      by simp_all
    from s(2) sk1(2) have quote: "\<not> c \<noteq> CHR 0x22" and colon: "\<not> c1 \<noteq> CHR '':''"
      by simp_all
    have "length rest < length (skip_ws cs2)"
      by (rule "3.IH"(2) [OF s(1) quote key refl sk1(1) colon val refl shorter sk2 neq comma run])
    with skip_ws_length [of cs2] bound show ?thesis by simp
  qed
qed

subsection \<open>Reading back what \<open>json_dumps\<close> writes: numbers\<close>















lemma starts_with_Nil: "starts_with [] s"
  by (simp add: starts_with_def)




subsection \<open>Reading back what \<open>json_dumps\<close> writes: strings\<close>






subsection \<open>Reading back what \<open>json_dumps\<close> writes: layout\<close>







subsection \<open>Reading back what \<open>json_dumps\<close> writes: lists and dicts\<close>















subsection \<open>The value read back is the value written\<close>




subsection \<open>Files written and read back\<close>






end
